theory Spec2Isabelle
  imports Main "HOL-Library.Multiset"
begin

section \<open>The nested-set plugin of src/nestedSet.ts\<close>

subsection \<open>Documents and the collection\<close>

text \<open>
  A document of the collection. \<open>nid\<close> is the field named by \<open>idFieldName\<close>,
  \<open>parentReference\<close> the one named by \<open>parentFieldName\<close> (both with their default
  names). \<open>lft\<close> and \<open>rgt\<close> are JavaScript numbers that may be missing:
  \<open>None\<close> is \<open>undefined\<close>. \<open>lvl\<close> has the schema default 0, so it is always a
  number. \<open>attrs\<close> holds the other fields of the document by name (the test's
  \<open>username\<close>, the field a grouping key names).
\<close>

type_synonym oid = nat

record node =
  nid :: oid
  parentReference :: "oid option"
  lft :: "int option"
  rgt :: "int option"
  lvl :: int
  attrs :: "(string \<times> string) list"

text \<open>The plugin options the code reads besides the two field names.\<close>

record config =
  groupingKey :: "string option"

datatype error = NotFound

text \<open>JavaScript truthiness of a numeric field and of a string option.\<close>

definition truthy :: "int option \<Rightarrow> bool" where
  "truthy v = (case v of None \<Rightarrow> False | Some x \<Rightarrow> x \<noteq> 0)"

definition truthy_str :: "string option \<Rightarrow> bool" where
  "truthy_str v = (case v of None \<Rightarrow> False | Some s \<Rightarrow> s \<noteq> [])"

text \<open>Every JavaScript array is truthy, the empty one too.\<close>

definition truthy_array :: "'a list \<Rightarrow> bool" where
  "truthy_array xs = True"

text \<open>
  The range operators of a filter (\<open>$gt\<close>, \<open>$lt\<close>, \<open>$gte\<close>, \<open>$lte\<close>) and the
  \<open><\<close> of JavaScript on two fields: a missing number on either side never matches.
\<close>

definition gt :: "int option \<Rightarrow> int option \<Rightarrow> bool" where
  "gt a b = (case (a, b) of (Some x, Some y) \<Rightarrow> x > y | _ \<Rightarrow> False)"

definition lt :: "int option \<Rightarrow> int option \<Rightarrow> bool" where
  "lt a b = (case (a, b) of (Some x, Some y) \<Rightarrow> x < y | _ \<Rightarrow> False)"

definition gte :: "int option \<Rightarrow> int option \<Rightarrow> bool" where
  "gte a b = (case (a, b) of (Some x, Some y) \<Rightarrow> x \<ge> y | _ \<Rightarrow> False)"

definition lte :: "int option \<Rightarrow> int option \<Rightarrow> bool" where
  "lte a b = (case (a, b) of (Some x, Some y) \<Rightarrow> x \<le> y | _ \<Rightarrow> False)"

text \<open>
  The collection is the list of its documents in store order. \<open>find\<close> returns the
  matching documents in that order, \<open>findOne\<close> the first of them, \<open>updateMany\<close>
  changes every matching document and \<open>updateOne\<close> the first one.
\<close>

definition find_docs :: "node list \<Rightarrow> (node \<Rightarrow> bool) \<Rightarrow> node list" where
  "find_docs st c = filter c st"

definition findOne :: "node list \<Rightarrow> (node \<Rightarrow> bool) \<Rightarrow> node option" where
  "findOne st c = (case filter c st of [] \<Rightarrow> None | x # _ \<Rightarrow> Some x)"

definition updateMany :: "node list \<Rightarrow> (node \<Rightarrow> bool) \<Rightarrow> (node \<Rightarrow> node) \<Rightarrow> node list" where
  "updateMany st c f = map (\<lambda>m. if c m then f m else m) st"

fun updateOne :: "node list \<Rightarrow> (node \<Rightarrow> bool) \<Rightarrow> (node \<Rightarrow> node) \<Rightarrow> node list" where
  "updateOne [] c f = []"
| "updateOne (m # st) c f = (if c m then f m # st else m # updateOne st c f)"

text \<open>The update \<open>{ $inc: { lft: d } }\<close>: a missing field is created with the amount.\<close>

definition inc_lft :: "int \<Rightarrow> node \<Rightarrow> node" where
  "inc_lft d m = m\<lparr>lft := (case lft m of None \<Rightarrow> Some d | Some x \<Rightarrow> Some (x + d))\<rparr>"

definition inc_rgt :: "int \<Rightarrow> node \<Rightarrow> node" where
  "inc_rgt d m = m\<lparr>rgt := (case rgt m of None \<Rightarrow> Some d | Some x \<Rightarrow> Some (x + d))\<rparr>"

text \<open>The update \<open>{ lft: l, rgt: r }\<close> of \<open>rebuildTree\<close>.\<close>

definition set_bounds :: "int \<Rightarrow> int \<Rightarrow> node \<Rightarrow> node" where
  "set_bounds l r m = m\<lparr>lft := Some l, rgt := Some r\<rparr>"

text \<open>
  \<open>item[groupingKey]\<close>, and \<open>updateConditions\<close>: with a grouping key configured the
  condition is extended by the equality of that field with the item's (the key is
  taken to name a field other than \<open>lft\<close> and \<open>rgt\<close>, which the assignment would
  overwrite). An equality with a missing value matches the documents that miss the
  field.
\<close>

definition field :: "node \<Rightarrow> string \<Rightarrow> string option" where
  "field m k = map_of (attrs m) k"

definition updateConditions :: "config \<Rightarrow> (node \<Rightarrow> bool) \<Rightarrow> node \<Rightarrow> (node \<Rightarrow> bool)" where
  "updateConditions cfg conditions item =
     (if truthy_str (groupingKey cfg)
      then (case groupingKey cfg of
              None \<Rightarrow> conditions
            | Some k \<Rightarrow> (\<lambda>m. conditions m \<and> field m k = field item k))
      else conditions)"

subsection \<open>Interval relation\<close>

text \<open>
  \<open>isLeaf\<close> returns the value of the chain \<open>lft && rgt && (rgt - lft === 1)\<close>: the
  first falsy operand, or the last one.
\<close>

datatype jsval = JUndefined | JNum int | JBool bool

definition js_truthy :: "jsval \<Rightarrow> bool" where
  "js_truthy v = (case v of JUndefined \<Rightarrow> False | JNum x \<Rightarrow> x \<noteq> 0 | JBool b \<Rightarrow> b)"

definition isLeaf :: "node \<Rightarrow> jsval" where
  "isLeaf this =
     (case lft this of
        None \<Rightarrow> JUndefined
      | Some l \<Rightarrow>
          if l = 0 then JNum 0
          else (case rgt this of
                  None \<Rightarrow> JUndefined
                | Some r \<Rightarrow> if r = 0 then JNum 0 else JBool (r - l = 1)))"

definition isChild :: "node \<Rightarrow> bool" where
  "isChild this = (parentReference this \<noteq> None)"

definition isDescendantOf :: "node \<Rightarrow> node \<Rightarrow> bool" where
  "isDescendantOf self other = (lt (lft other) (lft self) \<and> lt (lft self) (rgt other))"

definition isAncestorOf :: "node \<Rightarrow> node \<Rightarrow> bool" where
  "isAncestorOf self other = (lt (lft self) (lft other) \<and> lt (lft other) (rgt self))"

subsection \<open>Relationship queries\<close>

text \<open>
  Each query adds its own conditions to the caller's \<open>filters\<close> (a predicate on
  the other fields) and runs \<open>find\<close> on the collection. The projection and the
  options are passed through and not modelled. None of the queries calls
  \<open>updateConditions\<close>. \<open>parent\<close> is \<open>findOne\<close> by the parent reference; the hooks
  call it only when the reference is set, and for a document without one the model
  answers \<open>None\<close>.
\<close>

definition parent :: "node list \<Rightarrow> node \<Rightarrow> node option" where
  "parent st self =
     (case parentReference self of
        None \<Rightarrow> None
      | Some p \<Rightarrow> findOne st (\<lambda>m. nid m = p))"

definition selfAndAncestors :: "node list \<Rightarrow> (node \<Rightarrow> bool) \<Rightarrow> node \<Rightarrow> node list" where
  "selfAndAncestors st filters self =
     find_docs st (\<lambda>m. filters m \<and> lte (lft m) (lft self) \<and> gte (rgt m) (rgt self))"

definition ancestors :: "node list \<Rightarrow> (node \<Rightarrow> bool) \<Rightarrow> node \<Rightarrow> node list" where
  "ancestors st filters self =
     find_docs st (\<lambda>m. filters m \<and> lt (lft m) (lft self) \<and> gt (rgt m) (rgt self))"

definition children :: "node list \<Rightarrow> (node \<Rightarrow> bool) \<Rightarrow> node \<Rightarrow> node list" where
  "children st filters self =
     find_docs st (\<lambda>m. filters m \<and> parentReference m = Some (nid self))"

definition selfAndChildren :: "node list \<Rightarrow> (node \<Rightarrow> bool) \<Rightarrow> node \<Rightarrow> node list" where
  "selfAndChildren st filters self =
     find_docs st (\<lambda>m. filters m \<and> (parentReference m = Some (nid self) \<or> nid m = nid self))"

definition selfAndDescendants :: "node list \<Rightarrow> (node \<Rightarrow> bool) \<Rightarrow> node \<Rightarrow> node list" where
  "selfAndDescendants st filters self =
     find_docs st (\<lambda>m. filters m \<and> gte (lft m) (lft self) \<and> lte (rgt m) (rgt self))"

definition descendants :: "node list \<Rightarrow> (node \<Rightarrow> bool) \<Rightarrow> node \<Rightarrow> node list" where
  "descendants st filters self =
     find_docs st (\<lambda>m. filters m \<and> gt (lft m) (lft self) \<and> lt (rgt m) (rgt self))"

definition selfAndSiblings :: "node list \<Rightarrow> (node \<Rightarrow> bool) \<Rightarrow> node \<Rightarrow> node list" where
  "selfAndSiblings st filters self =
     find_docs st (\<lambda>m. filters m \<and> parentReference m = parentReference self)"

definition siblings :: "node list \<Rightarrow> (node \<Rightarrow> bool) \<Rightarrow> node \<Rightarrow> node list" where
  "siblings st filters self =
     find_docs st (\<lambda>m. filters m \<and> parentReference m = parentReference self \<and> nid m \<noteq> nid self)"

definition level :: "node list \<Rightarrow> node \<Rightarrow> nat" where
  "level st self = length (ancestors st (\<lambda>m. True) self)"

subsection \<open>The hooks before save and before remove\<close>

text \<open>
  The loop \<open>nodes.forEach\<close> that raises \<open>maxRgt\<close> from 0 to the largest \<open>rgt\<close>
  above it.
\<close>

definition maxRgt_of :: "node list \<Rightarrow> int" where
  "maxRgt_of nodes =
     foldl (\<lambda>maxRgt nd. (case rgt nd of
                            None \<Rightarrow> maxRgt
                          | Some r \<Rightarrow> if r > maxRgt then r else maxRgt)) 0 nodes"

text \<open>
  The two \<open>updateMany\<close> calls of a hook, the second on the result of the first:
  \<open>lft\<close> and then \<open>rgt\<close> are moved by \<open>d\<close> where they lie above \<open>maxRgt\<close>.
\<close>

definition shift :: "config \<Rightarrow> node list \<Rightarrow> node \<Rightarrow> int \<Rightarrow> int \<Rightarrow> node list" where
  "shift cfg st self maxRgt d =
     (let st1 = updateMany st (updateConditions cfg (\<lambda>m. gt (lft m) (Some maxRgt)) self) (inc_lft d)
      in updateMany st1 (updateConditions cfg (\<lambda>m. gt (rgt m) (Some maxRgt)) self) (inc_rgt d))"

text \<open>
  A hook returns what it hands to \<open>next\<close>: \<open>Inr\<close> of the collection and of the
  document in memory for \<open>next()\<close>, \<open>Inl\<close> for an error. The guard
  \<open>!err && parentNode && parentNode.lft && parentNode.rgt\<close> is the nest of cases on
  the parent.
\<close>

definition pre_save :: "config \<Rightarrow> node list \<Rightarrow> node \<Rightarrow> error + (node list \<times> node)" where
  "pre_save cfg st self =
     (case parentReference self of
        None \<Rightarrow> Inr (st, self)
      | Some _ \<Rightarrow>
         (case parent st self of
            None \<Rightarrow> Inr (st, self)
          | Some parentNode \<Rightarrow>
             (case lft parentNode of
                None \<Rightarrow> Inr (st, self)
              | Some plft \<Rightarrow>
                 if plft \<noteq> 0 \<and> truthy (rgt parentNode) then
                   (let self1 = self\<lparr>lvl := lvl parentNode + 1\<rparr>;
                        nodes = siblings st (\<lambda>m. True) self1
                    in if list_all (\<lambda>nd. truthy (lft nd) \<and> truthy (rgt nd)) nodes then
                         (let maxRgt = (if length nodes = 0 then plft else maxRgt_of nodes)
                          in Inr (shift cfg st self1 maxRgt 2,
                                  self1\<lparr>lft := Some (maxRgt + 1), rgt := Some (maxRgt + 2)\<rparr>))
                       else Inr (st, self1))
                 else Inr (st, self))))"

definition pre_remove :: "config \<Rightarrow> node list \<Rightarrow> node \<Rightarrow> error + (node list \<times> node)" where
  "pre_remove cfg st self =
     (case parentReference self of
        None \<Rightarrow> Inr (st, self)
      | Some _ \<Rightarrow>
         (case parent st self of
            None \<Rightarrow> Inr (st, self)
          | Some parentNode \<Rightarrow>
             (case lft parentNode of
                None \<Rightarrow> Inr (st, self)
              | Some plft \<Rightarrow>
                 if plft \<noteq> 0 \<and> truthy (rgt parentNode) then
                   (let nodes = siblings st (\<lambda>m. True) self
                    in if list_all (\<lambda>nd. truthy (lft nd) \<and> truthy (rgt nd)) nodes then
                         (let maxRgt = (if length nodes = 0 then plft else maxRgt_of nodes)
                          in Inr (shift cfg st self maxRgt (- 2), self))
                       else Inr (st, self))
                 else Inr (st, self))))"

subsection \<open>Rebuilding the tree\<close>

text \<open>
  \<open>rebuildTree\<close> reads of its argument \<open>parent\<close> (here \<open>root\<close>, as \<open>parent\<close>
  is the query of that name) only its id and writes its \<open>lft\<close> and \<open>rgt\<close>
  in memory; the function returns the collection and the final \<open>parent.rgt\<close>, which
  its caller reads as \<open>item.rgt\<close>. The recursion follows the parent pointers and need
  not end (a document that is its own parent), so it runs on fuel: \<open>None\<close> is a
  run that used it up. \<open>forEachSeries\<close> is the loop over the children, carrying the
  collection and \<open>parent.lft\<close>, \<open>parent.rgt\<close>; after each child it writes the
  parent's boundaries with \<open>updateOne\<close>. The guard \<open>if (!children)\<close> stands as the
  source has it, on the array that \<open>find\<close> returned.
\<close>

fun rebuildTree :: "nat \<Rightarrow> node list \<Rightarrow> node \<Rightarrow> int \<Rightarrow> (error + (node list \<times> int)) option"
  and forEachSeries ::
    "nat \<Rightarrow> node list \<Rightarrow> node \<Rightarrow> int \<Rightarrow> int \<Rightarrow> node list \<Rightarrow> (error + (node list \<times> int)) option"
where
  "rebuildTree 0 st root left = None"
| "rebuildTree (Suc k) st root left =
     (let plft = left; prgt = left + 1;
          childs = find_docs st (\<lambda>m. parentReference m = Some (nid root))
      in if \<not> truthy_array childs then Some (Inl NotFound)
         else if length childs > 0 then forEachSeries k st root plft prgt childs
         else Some (Inr (updateOne st (\<lambda>m. nid m = nid root) (set_bounds plft prgt), prgt)))"
| "forEachSeries k st root plft prgt [] = Some (Inr (st, prgt))"
| "forEachSeries k st root plft prgt (item # items) =
     (case rebuildTree k st item prgt of
        None \<Rightarrow> None
      | Some (Inl e) \<Rightarrow> Some (Inl e)
      | Some (Inr (st1, item_rgt)) \<Rightarrow>
          (let prgt1 = item_rgt + 1
           in forEachSeries k (updateOne st1 (\<lambda>m. nid m = nid root) (set_bounds plft prgt1))
                root plft prgt1 items))"

subsection \<open>Partitions, range updates and the nested-set invariant\<close>

text \<open>
  The partition of a document: with a grouping key configured, the documents with
  the same value of that field; the whole collection otherwise.
\<close>

definition in_partition :: "config \<Rightarrow> node \<Rightarrow> node \<Rightarrow> bool" where
  "in_partition cfg self m =
     (if truthy_str (groupingKey cfg)
      then (case groupingKey cfg of None \<Rightarrow> True | Some k \<Rightarrow> field m k = field self k)
      else True)"

text \<open>
  A range update read on one document: a boundary above \<open>maxRgt\<close> moves by \<open>d\<close>,
  \<open>lft\<close> and \<open>rgt\<close> each on its own value.
\<close>

definition move :: "int \<Rightarrow> int \<Rightarrow> int option \<Rightarrow> int option" where
  "move maxRgt d v =
     (case v of None \<Rightarrow> None | Some x \<Rightarrow> if x > maxRgt then Some (x + d) else Some x)"

definition shift_node :: "config \<Rightarrow> node \<Rightarrow> int \<Rightarrow> int \<Rightarrow> node \<Rightarrow> node" where
  "shift_node cfg self maxRgt d m =
     (if in_partition cfg self m
      then m\<lparr>lft := move maxRgt d (lft m), rgt := move maxRgt d (rgt m)\<rparr>
      else m)"

text \<open>
  The nested-set invariant of the data model (invariants 1 and 2): within a partition,
  a document with boundaries has \<open>lft < rgt\<close>, and two of them are the same document,
  or one interval lies strictly inside the other, or the intervals are disjoint.
\<close>

definition has_bounds :: "node \<Rightarrow> bool" where
  "has_bounds n = (lft n \<noteq> None \<and> rgt n \<noteq> None)"

definition strictly_inside :: "node \<Rightarrow> node \<Rightarrow> bool" where
  "strictly_inside a b = (lt (lft b) (lft a) \<and> lt (rgt a) (rgt b))"

definition disjoint_intervals :: "node \<Rightarrow> node \<Rightarrow> bool" where
  "disjoint_intervals a b = (lt (rgt a) (lft b) \<or> lt (rgt b) (lft a))"

definition partial_overlap :: "node \<Rightarrow> node \<Rightarrow> bool" where
  "partial_overlap a b =
     ((lt (lft a) (lft b) \<and> lte (lft b) (rgt a) \<and> lt (rgt a) (rgt b)) \<or>
      (lt (lft b) (lft a) \<and> lte (lft a) (rgt b) \<and> lt (rgt b) (rgt a)))"

definition nested_set_invariant :: "config \<Rightarrow> node list \<Rightarrow> bool" where
  "nested_set_invariant cfg st =
     (\<forall>a\<in>set st. \<forall>b\<in>set st.
        has_bounds a \<and> has_bounds b \<and> in_partition cfg a b \<longrightarrow>
          lt (lft a) (rgt a) \<and>
          (a = b \<or> strictly_inside a b \<or> strictly_inside b a \<or> disjoint_intervals a b))"

definition exactly_one :: "bool list \<Rightarrow> bool" where
  "exactly_one bs = (length (filter (\<lambda>b. b) bs) = 1)"

subsection \<open>Trees given by parent pointers\<close>

text \<open>
  A tree of document ids, and what it means that a collection holds this tree in its
  parent pointers: the ids of the collection are distinct, every node of the tree is a
  document, no id stands twice in the tree, and at every node the lookup of the
  children by \<open>parentReference\<close> returns the node's subtrees, in their order. The
  collection may hold other documents (other trees); \<open>tree_docs\<close> are the
  documents of the tree and \<open>other_docs\<close> the rest.
\<close>

datatype ptree = PNode oid "ptree list"

fun root_id :: "ptree \<Rightarrow> oid" where
  "root_id (PNode i ts) = i"

fun ids :: "ptree \<Rightarrow> oid list" and ids_list :: "ptree list \<Rightarrow> oid list" where
  "ids (PNode i ts) = i # ids_list ts"
| "ids_list [] = []"
| "ids_list (t # ts) = ids t @ ids_list ts"

fun shape :: "node list \<Rightarrow> ptree \<Rightarrow> bool" and shape_list :: "node list \<Rightarrow> ptree list \<Rightarrow> bool" where
  "shape st (PNode i ts) =
     (map nid (find_docs st (\<lambda>m. parentReference m = Some i)) = map root_id ts \<and> shape_list st ts)"
| "shape_list st [] = True"
| "shape_list st (t # ts) = (shape st t \<and> shape_list st ts)"

definition tree_of :: "node list \<Rightarrow> ptree \<Rightarrow> bool" where
  "tree_of st t =
     (distinct (map nid st) \<and> distinct (ids t) \<and> set (ids t) \<subseteq> set (map nid st) \<and> shape st t)"

definition tree_docs :: "ptree \<Rightarrow> node list \<Rightarrow> node list" where
  "tree_docs t st = filter (\<lambda>m. nid m \<in> set (ids t)) st"

definition other_docs :: "ptree \<Rightarrow> node list \<Rightarrow> node list" where
  "other_docs t st = filter (\<lambda>m. nid m \<notin> set (ids t)) st"

text \<open>
  The boundaries a collection holds, document by document; the numbering of a tree in
  preorder from a left boundary, which the rebuild is shown to write; a collection with
  the boundaries of some of its documents overwritten; and the boundaries written by
  the loop over the children of document \<open>i\<close>, which include those of \<open>i\<close> itself
  once a child has been done.
\<close>

definition boundaries :: "node list \<Rightarrow> int option list" where
  "boundaries st = concat (map (\<lambda>m. [lft m, rgt m]) st)"

fun labels :: "ptree \<Rightarrow> int \<Rightarrow> (oid \<times> int \<times> int) list"
  and labels_list :: "ptree list \<Rightarrow> int \<Rightarrow> (oid \<times> int \<times> int) list" where
  "labels (PNode i ts) l = (i, l, l + 2 * int (length (ids_list ts)) + 1) # labels_list ts (l + 1)"
| "labels_list [] l = []"
| "labels_list (t # ts) l = labels t l @ labels_list ts (l + 2 * int (length (ids t)))"

definition relabel :: "(oid \<rightharpoonup> int \<times> int) \<Rightarrow> node list \<Rightarrow> node list" where
  "relabel f st = map (\<lambda>m. case f (nid m) of None \<Rightarrow> m | Some (a, b) \<Rightarrow> set_bounds a b m) st"

definition loop_labels :: "oid \<Rightarrow> int \<Rightarrow> ptree list \<Rightarrow> int \<Rightarrow> (oid \<rightharpoonup> int \<times> int)" where
  "loop_labels i plft ts r =
     (\<lambda>j. if j = i then (if ts = [] then None else Some (plft, r + 2 * int (length (ids_list ts))))
          else map_of (labels_list ts r) j)"

definition label_values :: "(oid \<times> int \<times> int) list \<Rightarrow> int set" where
  "label_values L = (\<Union>(i, a, b)\<in>set L. {a, b})"

subsection \<open>The tree of the test suite\<close>

text \<open>
  The ten users of the test, in the order the test saves them. Every save ran the hook
  before \<open>save\<close> on a parent without boundaries, so no user has boundaries yet.
\<close>

definition user :: "oid \<Rightarrow> string \<Rightarrow> oid option \<Rightarrow> int option \<Rightarrow> int option \<Rightarrow> node" where
  "user i u p l r =
     \<lparr>nid = i, parentReference = p, lft = l, rgt = r, lvl = 0, attrs = [(''username'', u)]\<rparr>"

definition michael :: node where
  "michael = user 1 ''michael'' None None None"

definition office :: "node list" where
  "office =
     [michael,
      user 2 ''meredith'' (Some 1) None None,
      user 3 ''jim'' (Some 1) None None,
      user 4 ''angela'' (Some 1) None None,
      user 5 ''kelly'' (Some 2) None None,
      user 6 ''creed'' (Some 2) None None,
      user 7 ''phyllis'' (Some 3) None None,
      user 8 ''stanley'' (Some 3) None None,
      user 9 ''dwight'' (Some 3) None None,
      user 10 ''oscar'' (Some 4) None None]"

definition office_built :: "node list" where
  "office_built =
     [user 1 ''michael'' None (Some 1) (Some 20),
      user 2 ''meredith'' (Some 1) (Some 2) (Some 7),
      user 3 ''jim'' (Some 1) (Some 8) (Some 15),
      user 4 ''angela'' (Some 1) (Some 16) (Some 19),
      user 5 ''kelly'' (Some 2) (Some 3) (Some 4),
      user 6 ''creed'' (Some 2) (Some 5) (Some 6),
      user 7 ''phyllis'' (Some 3) (Some 9) (Some 10),
      user 8 ''stanley'' (Some 3) (Some 11) (Some 12),
      user 9 ''dwight'' (Some 3) (Some 13) (Some 14),
      user 10 ''oscar'' (Some 4) (Some 17) (Some 18)]"

text \<open>
  The tree after the test's insertion of joe under creed, and after the hook before
  \<open>remove\<close> has run on oscar (whose own record is still in the collection).
\<close>

definition no_grouping :: config where
  "no_grouping = \<lparr>groupingKey = None\<rparr>"

definition joe :: node where
  "joe = user 11 ''joe'' (Some 6) None None"

definition office_joe :: "node list" where
  "office_joe =
     [user 1 ''michael'' None (Some 1) (Some 22),
      user 2 ''meredith'' (Some 1) (Some 2) (Some 9),
      user 3 ''jim'' (Some 1) (Some 10) (Some 17),
      user 4 ''angela'' (Some 1) (Some 18) (Some 21),
      user 5 ''kelly'' (Some 2) (Some 3) (Some 4),
      user 6 ''creed'' (Some 2) (Some 5) (Some 8),
      user 7 ''phyllis'' (Some 3) (Some 11) (Some 12),
      user 8 ''stanley'' (Some 3) (Some 13) (Some 14),
      user 9 ''dwight'' (Some 3) (Some 15) (Some 16),
      user 10 ''oscar'' (Some 4) (Some 19) (Some 20)]"



definition oscar :: node where
  "oscar = user 10 ''oscar'' (Some 4) (Some 17) (Some 18)"

definition office_oscar :: "node list" where
  "office_oscar =
     [user 1 ''michael'' None (Some 1) (Some 18),
      user 2 ''meredith'' (Some 1) (Some 2) (Some 7),
      user 3 ''jim'' (Some 1) (Some 8) (Some 15),
      user 4 ''angela'' (Some 1) (Some 16) (Some 17),
      user 5 ''kelly'' (Some 2) (Some 3) (Some 4),
      user 6 ''creed'' (Some 2) (Some 5) (Some 6),
      user 7 ''phyllis'' (Some 3) (Some 9) (Some 10),
      user 8 ''stanley'' (Some 3) (Some 11) (Some 12),
      user 9 ''dwight'' (Some 3) (Some 13) (Some 14),
      user 10 ''oscar'' (Some 4) (Some 15) (Some 16)]"

text \<open>
  A new child of michael, a root whose left boundary is 0, a two-node tree, and a
  collection in which michael has boundaries and his child meredith has none.
\<close>

definition kevin :: node where
  "kevin = user 11 ''kevin'' (Some 1) None None"

definition zero_root :: node where
  "zero_root = user 1 ''michael'' None (Some 0) (Some 1)"

definition half_built :: "node list" where
  "half_built =
     [user 1 ''michael'' None (Some 1) (Some 2), user 2 ''meredith'' (Some 1) None None]"



definition pair_store :: "node list" where
  "pair_store =
     [user 1 ''michael'' None (Some 1) (Some 4), user 2 ''meredith'' (Some 1) (Some 2) (Some 3)]"

text \<open>The tree of the ten users, and joe as the hook before \<open>save\<close> leaves him.\<close>

definition office_tree :: ptree where
  "office_tree =
     PNode 1 [PNode 2 [PNode 5 [], PNode 6 []],
              PNode 3 [PNode 7 [], PNode 8 [], PNode 9 []],
              PNode 4 [PNode 10 []]]"

definition joe_saved :: node where
  "joe_saved = user 11 ''joe'' (Some 6) (Some 6) (Some 7)\<lparr>lvl := 1\<rparr>"

text \<open>Two trees in one collection, told apart by the grouping key \<open>tree\<close>.\<close>

definition by_tree :: config where
  "by_tree = \<lparr>groupingKey = Some ''tree''\<rparr>"

definition plant :: "oid \<Rightarrow> string \<Rightarrow> oid option \<Rightarrow> int \<Rightarrow> int \<Rightarrow> node" where
  "plant i t p l r =
     \<lparr>nid = i, parentReference = p, lft = Some l, rgt = Some r, lvl = 0, attrs = [(''tree'', t)]\<rparr>"

definition forest :: "node list" where
  "forest =
     [plant 1 ''oak'' None 1 6, plant 2 ''oak'' (Some 1) 2 3, plant 3 ''oak'' (Some 1) 4 5,
      plant 4 ''elm'' None 1 4, plant 5 ''elm'' (Some 4) 2 3]"

section \<open>Properties\<close>

subsection \<open>The scenario of the test suite\<close>

text \<open>
  C3. On the ten-node tree (michael over meredith, jim and angela; meredith over kelly
  and creed; jim over phyllis, stanley and dwight; angela over oscar)
  \<open>rebuildTree(michael, 1)\<close> returns, with any fuel of three or more, and leaves
  michael at [1,20], meredith at [2,7], kelly at [3,4], creed at [5,6], jim at [8,15],
  phyllis at [9,10], stanley at [11,12], dwight at [13,14], angela at [16,19] and oscar
  at [17,18]: the children are taken one after the other, each from the running right
  boundary of its parent, which then moves to the child's \<open>rgt + 1\<close>.
\<close>

theorem rebuildTree_office:
  "rebuildTree (Suc (Suc (Suc k))) office michael 1 = Some (Inr (office_built, 20))"
  by (simp add: office_def office_built_def michael_def user_def find_docs_def
      truthy_array_def set_bounds_def)

subsection \<open>The rebuild writes the numbers 1 to 2N\<close>

lemma relabel_nid [simp]: "map nid (relabel f st) = map nid st"
  by (auto simp: relabel_def set_bounds_def split: option.splits)

lemma relabel_length [simp]: "length (relabel f st) = length st"
  by (simp add: relabel_def)

lemma relabel_parentReference [simp]:
  "map parentReference (relabel f st) = map parentReference st"
  by (auto simp: relabel_def set_bounds_def split: option.splits)

lemma find_docs_relabel:
  "find_docs (relabel f st) (\<lambda>m. parentReference m = x) =
     relabel f (find_docs st (\<lambda>m. parentReference m = x))"
  by (induction st) (auto simp: relabel_def find_docs_def set_bounds_def split: option.splits)

lemma shape_relabel:
  "shape (relabel f st) t = shape st t"
  "shape_list (relabel f st) ts = shape_list st ts"
  by (induction st t and st ts rule: shape_shape_list.induct) (simp_all add: find_docs_relabel)

lemma relabel_cong:
  "(\<And>m. m \<in> set st \<Longrightarrow> f (nid m) = g (nid m)) \<Longrightarrow> relabel f st = relabel g st"
  by (simp add: relabel_def)

lemma relabel_none: "(\<And>m. m \<in> set st \<Longrightarrow> f (nid m) = None) \<Longrightarrow> relabel f st = st"
  by (simp add: relabel_def map_idI)

lemma relabel_relabel: "relabel g (relabel f st) = relabel (f ++ g) st"
  by (auto simp: relabel_def set_bounds_def map_add_def split: option.splits)

lemma relabel_twice: "relabel f (relabel f st) = relabel f st"
  by (auto simp: relabel_relabel map_add_def intro!: relabel_cong split: option.splits)

lemma updateOne_relabel:
  "distinct (map nid st) \<Longrightarrow>
     updateOne st (\<lambda>m. nid m = i) (set_bounds a b) = relabel [i \<mapsto> (a, b)] st"
proof (induction st)
  case Nil
  show ?case by (simp add: relabel_def)
next
  case (Cons m st)
  show ?case
  proof (cases "nid m = i")
    case True
    then have "relabel [i \<mapsto> (a, b)] st = st"
      using Cons.prems by (intro relabel_none) (force simp: image_iff)
    with True show ?thesis by (simp add: relabel_def)
  next
    case False
    with Cons show ?thesis by (simp add: relabel_def)
  qed
qed

lemma labels_ids:
  "map fst (labels t l) = ids t"
  "map fst (labels_list ts l) = ids_list ts"
  by (induction t l and ts l rule: labels_labels_list.induct) simp_all

lemma labels_dom:
  "fst ` set (labels t l) = set (ids t)"
  "fst ` set (labels_list ts l) = set (ids_list ts)"
  using arg_cong[OF labels_ids(1), of set t l] arg_cong[OF labels_ids(2), of set ts l]
  by simp_all

lemma map_of_labels_None:
  "j \<notin> set (ids t) \<Longrightarrow> map_of (labels t l) j = None"
  "j \<notin> set (ids_list ts) \<Longrightarrow> map_of (labels_list ts l) j = None"
  by (simp_all add: map_of_eq_None_iff labels_dom)

lemma loop_labels_Nil: "relabel (loop_labels i plft [] r) st = st"
  by (rule relabel_none) (simp add: loop_labels_def)

lemma loop_labels_Cons:
  assumes "set (ids t) \<inter> set (ids_list ts) = {}"
  shows "(map_of (labels t r))(i \<mapsto> (plft, r + 2 * int (length (ids t)))) ++
           loop_labels i plft ts (r + 2 * int (length (ids t))) = loop_labels i plft (t # ts) r"
proof
  fix j
  show "((map_of (labels t r))(i \<mapsto> (plft, r + 2 * int (length (ids t)))) ++
           loop_labels i plft ts (r + 2 * int (length (ids t)))) j = loop_labels i plft (t # ts) r j"
  proof (cases "j = i")
    case True
    then show ?thesis by (simp add: loop_labels_def map_add_def)
  next
    case False
    show ?thesis
    proof (cases "j \<in> set (ids t)")
      case True
      with assms have "j \<notin> set (ids_list ts)" by blast
      then have "map_of (labels_list ts (r + 2 * int (length (ids t)))) j = None"
        by (rule map_of_labels_None)
      with False show ?thesis by (simp add: loop_labels_def map_add_def split: option.splits)
    next
      case notin: False
      then have "map_of (labels t r) j = None" by (rule map_of_labels_None)
      with False show ?thesis by (simp add: loop_labels_def map_add_def split: option.splits)
    qed
  qed
qed

lemma loop_labels_root:
  "ts \<noteq> [] \<Longrightarrow> loop_labels i l ts (l + 1) = map_of (labels (PNode i ts) l)"
  by (rule ext) (simp add: loop_labels_def)

lemma rebuild_run:
  "length (ids t) \<le> k \<Longrightarrow> distinct (map nid st) \<Longrightarrow> shape st t \<Longrightarrow> distinct (ids t) \<Longrightarrow>
     nid root = root_id t \<Longrightarrow>
     rebuildTree k st root l =
       Some (Inr (relabel (map_of (labels t l)) st, l + 2 * int (length (ids t)) - 1))"
  "length (ids_list ts) \<le> k \<Longrightarrow> distinct (map nid st) \<Longrightarrow> shape_list st ts \<Longrightarrow>
     distinct (ids_list ts) \<Longrightarrow> nid root \<notin> set (ids_list ts) \<Longrightarrow>
     map nid items = map root_id ts \<Longrightarrow>
     forEachSeries k st root plft prgt items =
       Some (Inr (relabel (loop_labels (nid root) plft ts prgt) st, prgt + 2 * int (length (ids_list ts))))"
proof (induction t and ts arbitrary: k st root l and k st root plft prgt items
       rule: ids_ids_list.induct)
  case (1 i ts)
  then obtain k' where k: "k = Suc k'" "length (ids_list ts) \<le> k'"
    by (cases k) auto
  let ?childs = "find_docs st (\<lambda>m. parentReference m = Some (nid root))"
  have ch: "map nid ?childs = map root_id ts" using "1.prems" by simp
  show ?case
  proof (cases "ts = []")
    case True
    with ch have "?childs = []" by simp
    then show ?thesis
      using True "1.prems" k
      by (simp add: truthy_array_def updateOne_relabel Let_def fun_upd_def)
  next
    case False
    with ch have ne: "?childs \<noteq> []" by auto
    have "forEachSeries k' st root l (l + 1) ?childs =
            Some (Inr (relabel (loop_labels (nid root) l ts (l + 1)) st,
                       (l + 1) + 2 * int (length (ids_list ts))))"
      using "1.prems" k ch by (intro "1.IH") auto
    then show ?thesis
      using ne False "1.prems" k by (simp add: truthy_array_def loop_labels_root fun_upd_def)
  qed
next
  case 2
  then show ?case by (simp add: loop_labels_Nil)
next
  case (3 t ts)
  from "3.prems" obtain item rest where items: "items = item # rest"
    and item: "nid item = root_id t" and rest: "map nid rest = map root_id ts"
    by (cases items) auto
  let ?n = "int (length (ids t))"
  let ?st1 = "relabel (map_of (labels t prgt)) st"
  have run: "rebuildTree k st item prgt = Some (Inr (?st1, prgt + 2 * ?n - 1))"
    using "3.prems" item by (intro "3.IH"(1)) auto
  let ?st2 = "relabel [nid root \<mapsto> (plft, prgt + 2 * ?n)] ?st1"
  have upd: "updateOne ?st1 (\<lambda>m. nid m = nid root) (set_bounds plft (prgt + 2 * ?n)) = ?st2"
    using "3.prems" by (intro updateOne_relabel) simp
  have loop: "forEachSeries k ?st2 root plft (prgt + 2 * ?n) rest =
      Some (Inr (relabel (loop_labels (nid root) plft ts (prgt + 2 * ?n)) ?st2,
                 (prgt + 2 * ?n) + 2 * int (length (ids_list ts))))"
    using "3.prems" rest by (intro "3.IH"(2)) (auto simp: shape_relabel)
  have disj: "set (ids t) \<inter> set (ids_list ts) = {}" using "3.prems" by auto
  have "relabel (loop_labels (nid root) plft ts (prgt + 2 * ?n)) ?st2 =
        relabel (loop_labels (nid root) plft (t # ts) prgt) st"
    by (simp add: relabel_relabel loop_labels_Cons[OF disj])
  with run upd loop show ?case
    by (simp add: items Let_def)
qed

lemma label_values_simps [simp]:
  "label_values [] = {}"
  "label_values ((i, a, b) # L) = {a, b} \<union> label_values L"
  "label_values (L @ L') = label_values L \<union> label_values L'"
  by (auto simp: label_values_def)

lemma label_values_labels:
  "label_values (labels t l) = {l .. l + 2 * int (length (ids t)) - 1}"
  "label_values (labels_list ts l) = {l .. l + 2 * int (length (ids_list ts)) - 1}"
proof (induction t l and ts l rule: labels_labels_list.induct)
  case (1 i ts l)
  then show ?case by auto
next
  case (2 l)
  show ?case by simp
next
  case (3 t ts l)
  then show ?case by auto
qed

lemma boundaries_length: "length (boundaries st) = 2 * length st"
  by (induction st) (simp_all add: boundaries_def)

lemma boundaries_relabel:
  assumes "distinct (map fst L)" and "fst ` set L = nid ` set st"
  shows "set (boundaries (relabel (map_of L) st)) = Some ` label_values L"
proof (intro equalityI subsetI)
  fix v
  assume "v \<in> set (boundaries (relabel (map_of L) st))"
  then obtain m where m: "m \<in> set st"
    and v: "v = lft (case map_of L (nid m) of None \<Rightarrow> m | Some (a, b) \<Rightarrow> set_bounds a b m) \<or>
            v = rgt (case map_of L (nid m) of None \<Rightarrow> m | Some (a, b) \<Rightarrow> set_bounds a b m)"
    by (auto simp: boundaries_def relabel_def)
  from m assms(2) have "nid m \<in> fst ` set L" by blast
  then obtain a b where ab: "(nid m, a, b) \<in> set L" by force
  with assms(1) have "map_of L (nid m) = Some (a, b)" by simp
  with v have "v = Some a \<or> v = Some b" by (simp add: set_bounds_def)
  with ab show "v \<in> Some ` label_values L" by (auto simp: label_values_def)
next
  fix v
  assume "v \<in> Some ` label_values L"
  then obtain i a b where ab: "(i, a, b) \<in> set L" and v: "v = Some a \<or> v = Some b"
    by (auto simp: label_values_def)
  from ab assms(2) obtain m where m: "m \<in> set st" "nid m = i" by force
  from ab assms(1) have "map_of L i = Some (a, b)" by simp
  with m have "set_bounds a b m \<in> set (relabel (map_of L) st)"
    by (force simp: relabel_def)
  then have "Some a \<in> set (boundaries (relabel (map_of L) st))"
            "Some b \<in> set (boundaries (relabel (map_of L) st))"
    by (force simp: boundaries_def set_bounds_def)+
  with v show "v \<in> set (boundaries (relabel (map_of L) st))" by blast
qed

lemma filter_relabel:
  "filter (\<lambda>m. P (nid m)) (relabel f st) = relabel f (filter (\<lambda>m. P (nid m)) st)"
  by (induction st) (auto simp: relabel_def set_bounds_def split: option.splits)

lemma tree_docs_ids:
  assumes "tree_of st t"
  shows "set (map nid (tree_docs t st)) = set (ids t)" and "distinct (map nid (tree_docs t st))"
  using assms by (auto simp: tree_of_def tree_docs_def distinct_map_filter)

lemma tree_docs_length: "tree_of st t \<Longrightarrow> length (tree_docs t st) = length (ids t)"
  using tree_docs_ids[of st t] unfolding tree_of_def
  by (metis distinct_card length_map)

lemma tree_of_relabel: "tree_of st t \<Longrightarrow> tree_of (relabel f st) t"
  by (simp add: tree_of_def shape_relabel)

lemma rebuildTree_office_run:
  "rebuildTree (Suc (Suc (Suc k))) office root 1 = Some (Inr (office_built, 20))"
  if "nid root = 1"
  using that
  by (simp add: office_def office_built_def michael_def user_def find_docs_def
      truthy_array_def set_bounds_def)

lemma tree_of_office: "tree_of office office_tree"
  by (auto simp: tree_of_def office_def office_tree_def michael_def user_def find_docs_def)

text \<open>
  C2. For every collection that holds a tree of N documents in its parent pointers,
  \<open>rebuildTree(root, 1)\<close> returns (with any fuel of N or more), changes no id, no
  parent pointer and no document outside the tree, and leaves on the N documents of
  the tree boundaries that are exactly the numbers 1 to 2N, each used once as an
  \<open>lft\<close> or a \<open>rgt\<close>; run again on its own result it returns the same collection.
\<close>

theorem rebuildTree_numbers:
  assumes "tree_of st t" and "nid root = root_id t" and "length (ids t) \<le> k"
  shows "\<exists>st'. rebuildTree k st root 1 = Some (Inr (st', 2 * int (length (ids t)))) \<and>
               map nid st' = map nid st \<and>
               map parentReference st' = map parentReference st \<and>
               other_docs t st' = other_docs t st \<and>
               length (tree_docs t st') = length (ids t) \<and>
               set (boundaries (tree_docs t st')) = Some ` {1 .. 2 * int (length (ids t))} \<and>
               distinct (boundaries (tree_docs t st')) \<and>
               rebuildTree k st' root 1 = Some (Inr (st', 2 * int (length (ids t))))"
proof -
  let ?L = "labels t 1"
  let ?st' = "relabel (map_of ?L) st"
  have run: "rebuildTree k s root 1 =
               Some (Inr (relabel (map_of ?L) s, 2 * int (length (ids t))))"
    if "tree_of s t" for s
    using rebuild_run(1)[of t k s root 1] that assms(2,3) by (simp add: tree_of_def)
  have first: "rebuildTree k st root 1 = Some (Inr (?st', 2 * int (length (ids t))))"
    using assms(1) by (rule run)
  have again: "rebuildTree k ?st' root 1 = Some (Inr (?st', 2 * int (length (ids t))))"
    using run[of ?st'] tree_of_relabel[OF assms(1)] by (simp add: relabel_twice)
  have others: "other_docs t ?st' = other_docs t st"
    unfolding other_docs_def filter_relabel[of "\<lambda>i. i \<notin> set (ids t)"]
    by (rule relabel_none) (simp add: map_of_labels_None)
  have docs: "tree_docs t ?st' = relabel (map_of ?L) (tree_docs t st)"
    unfolding tree_docs_def by (rule filter_relabel[of "\<lambda>i. i \<in> set (ids t)"])
  have len: "length (tree_docs t ?st') = length (ids t)"
    using tree_docs_length[OF assms(1)] by (simp add: docs)
  have "fst ` set ?L = nid ` set (tree_docs t st)"
    using tree_docs_ids(1)[OF assms(1)] by (simp add: labels_dom)
  moreover have "distinct (map fst ?L)"
    using assms(1) by (simp add: labels_ids tree_of_def)
  ultimately have "set (boundaries (tree_docs t ?st')) = Some ` label_values ?L"
    unfolding docs by (intro boundaries_relabel)
  then have vs: "set (boundaries (tree_docs t ?st')) = Some ` {1 .. 2 * int (length (ids t))}"
    by (simp add: label_values_labels)
  have "card (set (boundaries (tree_docs t ?st'))) = length (boundaries (tree_docs t ?st'))"
    by (simp add: vs card_image boundaries_length len)
  then have d: "distinct (boundaries (tree_docs t ?st'))" by (rule card_distinct)
  from first again others len vs d show ?thesis
    by (intro exI[of _ ?st']) simp
qed

theorem rebuildTree_numbers_witness:
  "rebuildTree (Suc (Suc (Suc 7))) office michael 1 = Some (Inr (office_built, 20)) \<and>
   tree_docs office_tree office_built = office_built \<and>
   set (boundaries office_built) = Some ` {1 .. 20} \<and>
   distinct (boundaries office_built) \<and>
   rebuildTree (Suc (Suc (Suc 7))) office_built michael 1 = Some (Inr (office_built, 20))"
proof -
  have r: "nid michael = root_id office_tree"
    by (simp add: michael_def user_def office_tree_def)
  have k: "length (ids office_tree) \<le> Suc (Suc (Suc 7))" by (simp add: office_tree_def)
  have n: "2 * int (length (ids office_tree)) = 20" by (simp add: office_tree_def)
  from rebuildTree_numbers[OF tree_of_office r k] obtain st' where
    st': "rebuildTree (Suc (Suc (Suc 7))) office michael 1 = Some (Inr (st', 20))"
      "set (boundaries (tree_docs office_tree st')) = Some ` {1 .. 20}"
      "distinct (boundaries (tree_docs office_tree st'))"
      "rebuildTree (Suc (Suc (Suc 7))) st' michael 1 = Some (Inr (st', 20))"
    unfolding n by blast
  have "nid michael = 1" by (simp add: michael_def user_def)
  from rebuildTree_office_run[OF this, of 7] st'(1) have e: "st' = office_built" by simp
  have a: "tree_docs office_tree office_built = office_built"
    by (simp add: tree_docs_def office_tree_def office_built_def user_def)
  from st' show ?thesis unfolding e a by (simp add: a)
qed

subsection \<open>The error of the rebuild\<close>

lemma rebuildTree_never_fails:
  "rebuildTree k st root left \<noteq> Some (Inl e)"
  "forEachSeries k st root plft prgt items \<noteq> Some (Inl e)"
proof (induction k st root left and k st root plft prgt items rule: rebuildTree_forEachSeries.induct)
  case (1 st root left)
  show ?case by simp
next
  case (2 k st root left)
  then show ?case by (simp add: truthy_array_def Let_def)
next
  case (3 k st root plft prgt)
  show ?case by simp
next
  case (4 k st root plft prgt item items)
  then show ?case
    by (auto simp: Let_def split: option.splits sum.splits)
qed

text \<open>
  C6. \<open>rebuildTree\<close> never looks its root up, and the result of \<open>find\<close> is an
  array, which is truthy: on a collection without the root (here the empty one) it
  returns without an error, and no run at all ends in \<open>NotFound\<close>.
\<close>

theorem rebuildTree_missing_root:
  "rebuildTree (Suc k) [] michael 1 = Some (Inr ([], 2)) \<and>
   rebuildTree j st root left \<noteq> Some (Inl NotFound)"
  by (simp add: rebuildTree_never_fails find_docs_def truthy_array_def)

subsection \<open>The hooks\<close>

lemma updateConditions_iff:
  "updateConditions cfg c self m \<longleftrightarrow> c m \<and> in_partition cfg self m"
  by (auto simp: updateConditions_def in_partition_def split: option.splits)

lemma field_update [simp]:
  "field (m\<lparr>lft := a\<rparr>) k = field m k"
  "field (m\<lparr>rgt := b\<rparr>) k = field m k"
  "field (m\<lparr>lvl := c\<rparr>) k = field m k"
  by (simp_all add: field_def)

lemma in_partition_update [simp]:
  "in_partition cfg self (m\<lparr>lft := a\<rparr>) = in_partition cfg self m"
  "in_partition cfg self (m\<lparr>rgt := b\<rparr>) = in_partition cfg self m"
  "in_partition cfg (self\<lparr>lvl := c\<rparr>) m = in_partition cfg self m"
  by (simp_all add: in_partition_def split: option.splits)

lemma in_partition_self_update [simp]:
  "in_partition cfg (self\<lparr>lft := a\<rparr>) m = in_partition cfg self m"
  "in_partition cfg (self\<lparr>rgt := b\<rparr>) m = in_partition cfg self m"
  by (simp_all add: in_partition_def split: option.splits)

lemma shift_eq_map: "shift cfg st self maxRgt d = map (shift_node cfg self maxRgt d) st"
  by (auto simp: shift_def updateMany_def updateConditions_iff shift_node_def move_def gt_def
      inc_lft_def inc_rgt_def Let_def split: option.splits)

lemma shift_lvl: "shift cfg st (self\<lparr>lvl := v\<rparr>) maxRgt d = shift cfg st self maxRgt d"
  by (simp add: shift_eq_map shift_node_def)

lemma siblings_lvl: "siblings st f (self\<lparr>lvl := v\<rparr>) = siblings st f self"
  by (simp add: siblings_def)

lemma pre_save_parent_unset:
  assumes "parent st self = Some p" and "\<not> (truthy (lft p) \<and> truthy (rgt p))"
  shows "pre_save cfg st self = Inr (st, self)"
  using assms by (auto simp: pre_save_def truthy_def split: option.splits)

lemma pre_remove_parent_unset:
  assumes "parent st self = Some p" and "\<not> (truthy (lft p) \<and> truthy (rgt p))"
  shows "pre_remove cfg st self = Inr (st, self)"
  using assms by (auto simp: pre_remove_def truthy_def split: option.splits)

lemma pre_save_sibling_unset:
  assumes "s \<in> set (siblings st (\<lambda>m. True) self)" and "\<not> (truthy (lft s) \<and> truthy (rgt s))"
  shows "pre_save cfg st self = Inr (st, self) \<or>
         (\<exists>p. parent st self = Some p \<and> pre_save cfg st self = Inr (st, self\<lparr>lvl := lvl p + 1\<rparr>))"
  using assms by (auto simp: pre_save_def siblings_lvl Let_def list_all_iff split: option.splits)

lemma pre_remove_sibling_unset:
  assumes "s \<in> set (siblings st (\<lambda>m. True) self)" and "\<not> (truthy (lft s) \<and> truthy (rgt s))"
  shows "pre_remove cfg st self = Inr (st, self)"
  using assms by (auto simp: pre_remove_def Let_def list_all_iff split: option.splits)

lemma pre_save_built:
  assumes "parent st self = Some p" and "lft p = Some plft" and "plft \<noteq> 0" and "truthy (rgt p)"
    and "list_all (\<lambda>nd. truthy (lft nd) \<and> truthy (rgt nd)) (siblings st (\<lambda>m. True) self)"
  shows "pre_save cfg st self =
           Inr (shift cfg st self (if siblings st (\<lambda>m. True) self = [] then plft
                                   else maxRgt_of (siblings st (\<lambda>m. True) self)) 2,
                self\<lparr>lvl := lvl p + 1,
                     lft := Some ((if siblings st (\<lambda>m. True) self = [] then plft
                                   else maxRgt_of (siblings st (\<lambda>m. True) self)) + 1),
                     rgt := Some ((if siblings st (\<lambda>m. True) self = [] then plft
                                   else maxRgt_of (siblings st (\<lambda>m. True) self)) + 2)\<rparr>)"
  using assms
  by (auto simp: pre_save_def siblings_lvl shift_lvl Let_def parent_def split: option.splits)

lemma pre_remove_built:
  assumes "parent st self = Some p" and "lft p = Some plft" and "plft \<noteq> 0" and "truthy (rgt p)"
    and "list_all (\<lambda>nd. truthy (lft nd) \<and> truthy (rgt nd)) (siblings st (\<lambda>m. True) self)"
  shows "pre_remove cfg st self =
           Inr (shift cfg st self (if siblings st (\<lambda>m. True) self = [] then plft
                                   else maxRgt_of (siblings st (\<lambda>m. True) self)) (- 2), self)"
  using assms
  by (auto simp: pre_remove_def Let_def parent_def split: option.splits)

lemma foldl_max_ge:
  "a \<le> foldl (\<lambda>mx nd. (case rgt nd of None \<Rightarrow> mx
                                | Some r \<Rightarrow> if r > mx then r else mx)) a nodes"
proof (induction nodes arbitrary: a)
  case Nil show ?case by simp
next
  case (Cons x xs)
  show ?case
    using Cons.IH[of "case rgt x of None \<Rightarrow> a | Some r \<Rightarrow> if r > a then r else a"]
    by (auto split: option.splits)
qed

lemma foldl_max_upper:
  "s \<in> set nodes \<Longrightarrow> rgt s = Some r \<Longrightarrow>
     r \<le> foldl (\<lambda>mx nd. (case rgt nd of None \<Rightarrow> mx | Some r \<Rightarrow> if r > mx then r else mx)) a nodes"
proof (induction nodes arbitrary: a)
  case Nil then show ?case by simp
next
  case (Cons x xs)
  show ?case
  proof (cases "s = x")
    case True
    then show ?thesis
      using Cons.prems foldl_max_ge[of "if r > a then r else a" xs] by (auto split: if_splits)
  next
    case False
    then show ?thesis using Cons by auto
  qed
qed


lemma maxRgt_of_upper: "s \<in> set nodes \<Longrightarrow> rgt s = Some r \<Longrightarrow> r \<le> maxRgt_of nodes"
  unfolding maxRgt_of_def by (rule foldl_max_upper)

lemma maxRgt_of_nonneg: "0 \<le> maxRgt_of nodes"
  unfolding maxRgt_of_def by (rule foldl_max_ge)






text \<open>
  C9. When the parent has a boundary unset, or a sibling has, both hooks call
  \<open>next()\<close> without an error and without any update of the collection, and the
  document keeps the \<open>lft\<close> and \<open>rgt\<close> it had.
\<close>

theorem unbuilt_tree_is_skipped:
  assumes "(\<exists>p. parent st self = Some p \<and> (lft p = None \<or> rgt p = None)) \<or>
           (\<exists>s\<in>set (siblings st (\<lambda>m. True) self). lft s = None \<or> rgt s = None)"
  shows "(\<exists>self'. pre_save cfg st self = Inr (st, self') \<and>
                   lft self' = lft self \<and> rgt self' = rgt self) \<and>
         pre_remove cfg st self = Inr (st, self)"
proof -
  from assms consider
      (par) p where "parent st self = Some p" "\<not> (truthy (lft p) \<and> truthy (rgt p))"
    | (sib) s where "s \<in> set (siblings st (\<lambda>m. True) self)" "\<not> (truthy (lft s) \<and> truthy (rgt s))"
    by (auto simp: truthy_def)
  then show ?thesis
  proof cases
    case par
    then show ?thesis
      using pre_save_parent_unset[of st self p cfg] pre_remove_parent_unset[of st self p cfg]
      by simp
  next
    case sib
    then show ?thesis
      using pre_save_sibling_unset[of s st self cfg] pre_remove_sibling_unset[of s st self cfg]
      by auto
  qed
qed

theorem unbuilt_tree_is_skipped_witness:
  "parent office kevin = Some michael \<and> lft michael = None \<and>
   pre_save no_grouping office kevin = Inr (office, kevin) \<and>
   pre_remove no_grouping office kevin = Inr (office, kevin) \<and>
   pre_save no_grouping half_built kevin = Inr (half_built, kevin\<lparr>lvl := 1\<rparr>) \<and>
   pre_remove no_grouping half_built kevin = Inr (half_built, kevin)"
proof -
  have p: "parent office kevin = Some michael"
    by (simp add: parent_def kevin_def office_def michael_def user_def findOne_def)
  have l: "lft michael = None" by (simp add: michael_def user_def)
  have "(\<exists>p. parent office kevin = Some p \<and> (lft p = None \<or> rgt p = None)) \<or>
        (\<exists>s\<in>set (siblings office (\<lambda>m. True) kevin). lft s = None \<or> rgt s = None)"
    using p l by blast
  from unbuilt_tree_is_skipped[OF this, of no_grouping]
  have r: "pre_remove no_grouping office kevin = Inr (office, kevin)" by simp
  have f: "\<not> (truthy (lft michael) \<and> truthy (rgt michael))"
    by (simp add: l truthy_def)
  have s: "pre_save no_grouping office kevin = Inr (office, kevin)"
    using p f by (rule pre_save_parent_unset)
  have "user 2 ''meredith'' (Some 1) None None \<in> set (siblings half_built (\<lambda>m. True) kevin)"
    by (simp add: siblings_def find_docs_def half_built_def kevin_def user_def)
  moreover have "lft (user 2 ''meredith'' (Some 1) None None) = None"
    by (simp add: user_def)
  ultimately
  have "(\<exists>p. parent half_built kevin = Some p \<and> (lft p = None \<or> rgt p = None)) \<or>
        (\<exists>s\<in>set (siblings half_built (\<lambda>m. True) kevin). lft s = None \<or> rgt s = None)"
    by blast
  from unbuilt_tree_is_skipped[OF this, of no_grouping]
  have r2: "pre_remove no_grouping half_built kevin = Inr (half_built, kevin)" by simp
  have s2: "pre_save no_grouping half_built kevin = Inr (half_built, kevin\<lparr>lvl := 1\<rparr>)"
    by (simp add: pre_save_def parent_def findOne_def siblings_def find_docs_def truthy_def
        half_built_def kevin_def user_def)
  from p l r s r2 s2 show ?thesis by simp
qed

text \<open>
  C10. A boundary of 0 counts as unset: for a document with \<open>lft = 0\<close>,
  \<open>isLeaf\<close> returns the falsy 0, also when \<open>rgt - lft = 1\<close>, and both hooks skip
  all boundary work when that document is the parent or a sibling.
\<close>

theorem zero_boundary_is_unset:
  assumes "lft n = Some 0"
  shows "isLeaf n = JNum 0 \<and> \<not> js_truthy (isLeaf n) \<and>
         (parent st self = Some n \<or> n \<in> set (siblings st (\<lambda>m. True) self) \<longrightarrow>
            (\<exists>self'. pre_save cfg st self = Inr (st, self') \<and>
                      lft self' = lft self \<and> rgt self' = rgt self) \<and>
            pre_remove cfg st self = Inr (st, self))"
proof -
  have f: "\<not> (truthy (lft n) \<and> truthy (rgt n))" using assms by (simp add: truthy_def)
  have leaf: "isLeaf n = JNum 0" using assms by (simp add: isLeaf_def)
  have hooks: "(\<exists>self'. pre_save cfg st self = Inr (st, self') \<and>
                      lft self' = lft self \<and> rgt self' = rgt self) \<and>
            pre_remove cfg st self = Inr (st, self)"
    if "parent st self = Some n \<or> n \<in> set (siblings st (\<lambda>m. True) self)"
    using that
  proof
    assume "parent st self = Some n"
    then show ?thesis
      using pre_save_parent_unset[of st self n cfg] pre_remove_parent_unset[of st self n cfg] f
      by simp
  next
    assume "n \<in> set (siblings st (\<lambda>m. True) self)"
    then show ?thesis
      using pre_save_sibling_unset[of n st self cfg] pre_remove_sibling_unset[of n st self cfg] f
      by auto
  qed
  from leaf hooks show ?thesis by (simp add: js_truthy_def)
qed

theorem zero_boundary_is_unset_witness:
  "rebuildTree (Suc 0) [michael] michael 0 = Some (Inr ([zero_root], 1)) \<and>
   lft zero_root = Some 0 \<and> rgt zero_root = Some 1 \<and> isLeaf zero_root = JNum 0 \<and>
   \<not> js_truthy (isLeaf zero_root) \<and>
   parent [zero_root] kevin = Some zero_root \<and>
   pre_save no_grouping [zero_root] kevin = Inr ([zero_root], kevin) \<and>
   pre_remove no_grouping [zero_root] kevin = Inr ([zero_root], kevin)"
proof -
  have z: "lft zero_root = Some 0" by (simp add: zero_root_def user_def)
  have p: "parent [zero_root] kevin = Some zero_root"
    by (simp add: parent_def kevin_def zero_root_def user_def findOne_def)
  have f: "\<not> (truthy (lft zero_root) \<and> truthy (rgt zero_root))"
    by (simp add: z truthy_def)
  have s: "pre_save no_grouping [zero_root] kevin = Inr ([zero_root], kevin)"
    using p f by (rule pre_save_parent_unset)
  have r: "rgt zero_root = Some 1" by (simp add: zero_root_def user_def)
  have b: "rebuildTree (Suc 0) [michael] michael 0 = Some (Inr ([zero_root], 1))"
    by (simp add: michael_def zero_root_def user_def find_docs_def truthy_array_def
        set_bounds_def)
  from zero_boundary_is_unset[OF z, of "[zero_root]" kevin no_grouping] p
  have "isLeaf zero_root = JNum 0 \<and> \<not> js_truthy (isLeaf zero_root) \<and>
        pre_remove no_grouping [zero_root] kevin = Inr ([zero_root], kevin)"
    by blast
  with z r p s b show ?thesis by blast
qed

text \<open>
  C8 as stated fails: removing oscar, the only child of angela, from the built tree
  takes \<open>maxRgt = 16\<close> from angela's \<open>lft\<close>, and oscar's own record, at [17,18],
  matches both range updates and is stored at [15,16].
\<close>

theorem removed_node_shifted_counterexample:
  "oscar \<in> set office_built \<and>
   pre_remove no_grouping office_built oscar = Inr (office_oscar, oscar) \<and>
   oscar \<notin> set office_oscar \<and>
   user 10 ''oscar'' (Some 4) (Some 15) (Some 16) \<in> set office_oscar"
  by (simp add: pre_remove_def parent_def findOne_def siblings_def find_docs_def shift_def
      updateMany_def updateConditions_def inc_lft_def inc_rgt_def gt_def truthy_def truthy_str_def
      no_grouping_def oscar_def office_built_def office_oscar_def user_def)

text \<open>
  C8, amended. The hook before \<open>remove\<close> leaves the document in memory as it is
  and moves the records of the collection by -2 above \<open>maxRgt\<close>, the record of the
  removed document like any other of its partition: no condition excludes it, so its
  stored \<open>lft\<close> and \<open>rgt\<close> are decremented where they lie above \<open>maxRgt\<close>.
\<close>

theorem removal_hook_shifts:
  assumes "parent st self = Some p" and "truthy (lft p)" and "truthy (rgt p)"
    and "\<forall>s\<in>set (siblings st (\<lambda>m. True) self). truthy (lft s) \<and> truthy (rgt s)"
  shows "\<exists>maxRgt.
           (if siblings st (\<lambda>m. True) self = [] then lft p = Some maxRgt
            else maxRgt = maxRgt_of (siblings st (\<lambda>m. True) self)) \<and>
           pre_remove cfg st self = Inr (map (shift_node cfg self maxRgt (- 2)) st, self) \<and>
           shift_node cfg self maxRgt (- 2) self =
             self\<lparr>lft := move maxRgt (- 2) (lft self), rgt := move maxRgt (- 2) (rgt self)\<rparr>"
proof -
  let ?sibs = "siblings st (\<lambda>m. True) self"
  obtain plft where pl: "lft p = Some plft" "plft \<noteq> 0"
    using assms(2) by (auto simp: truthy_def split: option.splits)
  have all: "list_all (\<lambda>nd. truthy (lft nd) \<and> truthy (rgt nd)) ?sibs"
    using assms(4) by (simp add: list_all_iff)
  let ?mx = "if ?sibs = [] then plft else maxRgt_of ?sibs"
  have run: "pre_remove cfg st self = Inr (map (shift_node cfg self ?mx (- 2)) st, self)"
    using pre_remove_built[OF assms(1) pl assms(3) all, of cfg] by (simp add: shift_eq_map)
  have own: "in_partition cfg self self"
    by (simp add: in_partition_def split: option.splits)
  show ?thesis
    using run pl own by (intro exI[of _ ?mx]) (simp add: shift_node_def)
qed

theorem removal_hook_shifts_witness:
  "pre_remove no_grouping office_built oscar = Inr (office_oscar, oscar) \<and>
   shift_node no_grouping oscar 16 (- 2) oscar = user 10 ''oscar'' (Some 4) (Some 15) (Some 16)"
proof -
  have p: "parent office_built oscar = Some (user 4 ''angela'' (Some 1) (Some 16) (Some 19))"
    by (simp add: parent_def oscar_def office_built_def user_def findOne_def)
  have t: "truthy (lft (user 4 ''angela'' (Some 1) (Some 16) (Some 19)))"
          "truthy (rgt (user 4 ''angela'' (Some 1) (Some 16) (Some 19)))"
    by (simp_all add: truthy_def user_def)
  have s: "siblings office_built (\<lambda>m. True) oscar = []"
    by (simp add: siblings_def find_docs_def oscar_def office_built_def user_def)
  have a: "\<forall>s\<in>set (siblings office_built (\<lambda>m. True) oscar). truthy (lft s) \<and> truthy (rgt s)"
    by (simp add: s)
  from removal_hook_shifts[OF p t a, of no_grouping]
  obtain maxRgt where m: "lft (user 4 ''angela'' (Some 1) (Some 16) (Some 19)) = Some maxRgt"
    and r: "pre_remove no_grouping office_built oscar =
              Inr (map (shift_node no_grouping oscar maxRgt (- 2)) office_built, oscar)"
    and o: "shift_node no_grouping oscar maxRgt (- 2) oscar =
              oscar\<lparr>lft := move maxRgt (- 2) (lft oscar), rgt := move maxRgt (- 2) (rgt oscar)\<rparr>"
    by (auto simp: s)
  from m have "maxRgt = 16" by (simp add: user_def)
  with r o show ?thesis
    by (simp add: office_built_def office_oscar_def oscar_def user_def shift_node_def move_def
        in_partition_def no_grouping_def truthy_str_def)
qed

subsection \<open>Removal undoes insertion\<close>

lemma shift_node_fields [simp]:
  "nid (shift_node cfg self maxRgt d m) = nid m"
  "parentReference (shift_node cfg self maxRgt d m) = parentReference m"
  "lvl (shift_node cfg self maxRgt d m) = lvl m"
  "attrs (shift_node cfg self maxRgt d m) = attrs m"
  by (simp_all add: shift_node_def)

lemma shift_node_bounds:
  "lft (shift_node cfg self maxRgt d m) =
     (if in_partition cfg self m then move maxRgt d (lft m) else lft m)"
  "rgt (shift_node cfg self maxRgt d m) =
     (if in_partition cfg self m then move maxRgt d (rgt m) else rgt m)"
  by (simp_all add: shift_node_def)

lemma move_inverse: "move maxRgt (- 2) (move maxRgt 2 v) = v"
  by (cases v) (simp_all add: move_def)

lemma shift_node_inverse:
  "shift_node cfg self maxRgt (- 2) (shift_node cfg self maxRgt 2 m) = m"
  by (simp add: shift_node_def move_inverse)

lemma shift_node_self_cong:
  "attrs self' = attrs self \<Longrightarrow> shift_node cfg self' maxRgt d m = shift_node cfg self maxRgt d m"
  by (simp add: shift_node_def in_partition_def field_def split: option.splits)

lemma maxRgt_of_map_rgt:
  "maxRgt_of nodes =
     foldl (\<lambda>mx v. (case v of None \<Rightarrow> mx | Some r \<Rightarrow> if r > mx then r else mx)) 0 (map rgt nodes)"
  by (simp add: maxRgt_of_def foldl_map)

lemma maxRgt_of_cong: "map rgt xs = map rgt ys \<Longrightarrow> maxRgt_of xs = maxRgt_of ys"
  by (simp add: maxRgt_of_map_rgt)

lemma move_truthy:
  assumes "truthy v" and "0 \<le> maxRgt"
  shows "truthy (move maxRgt 2 v)"
  using assms by (cases v) (auto simp: truthy_def move_def)

lemma findOne_map_append:
  assumes "findOne st c = Some p" and "\<And>m. c (f m) = c m"
  shows "findOne (map f st @ ys) c = Some (f p)"
proof -
  from assms(1) obtain rest where "filter c st = p # rest"
    by (auto simp: findOne_def split: list.splits)
  moreover have "filter c (map f st) = map f (filter c st)"
    by (induction st) (simp_all add: assms(2))
  ultimately show ?thesis by (simp add: findOne_def)
qed

lemma siblings_after_insert:
  assumes "nid x1 = nid x" and "parentReference x1 = parentReference x"
    and "\<And>m. nid (f m) = nid m" and "\<And>m. parentReference (f m) = parentReference m"
  shows "siblings (map f st @ [x1]) (\<lambda>m. True) x1 = map f (siblings st (\<lambda>m. True) x)"
proof -
  have "filter (\<lambda>m. parentReference m = parentReference x \<and> nid m \<noteq> nid x) (map f st) =
        map f (filter (\<lambda>m. parentReference m = parentReference x \<and> nid m \<noteq> nid x) st)"
    by (induction st) (simp_all add: assms(3,4))
  then show ?thesis by (simp add: siblings_def find_docs_def assms(1,2))
qed

text \<open>
  C4. A new document whose parent and siblings have boundaries (the parent's \<open>lft\<close>
  not negative) is given boundaries by the hook before \<open>save\<close>; once it is stored,
  the hook before \<open>remove\<close> on it succeeds, and with its record deleted the
  collection is again the one before the insertion: the shift by -2 undoes the shift
  by +2 on every document.
\<close>

theorem removal_inverse:
  assumes new: "nid x \<notin> nid ` set st"
    and par: "parent st x = Some p" and pl: "truthy (lft p)" and pr: "truthy (rgt p)"
    and nonneg: "gte (lft p) (Some 0)"
    and sibs: "\<forall>s\<in>set (siblings st (\<lambda>m. True) x). truthy (lft s) \<and> truthy (rgt s)"
  shows "\<exists>st1 x1 st3.
           pre_save cfg st x = Inr (st1, x1) \<and> has_bounds x1 \<and>
           pre_remove cfg (st1 @ [x1]) x1 = Inr (st3, x1) \<and>
           filter (\<lambda>m. nid m \<noteq> nid x1) st3 = st"
proof -
  let ?sibs = "siblings st (\<lambda>m. True) x"
  obtain plft where plft: "lft p = Some plft" "plft \<noteq> 0" "0 \<le> plft"
    using pl nonneg by (auto simp: truthy_def gte_def split: option.splits)
  define mx where "mx = (if ?sibs = [] then plft else maxRgt_of ?sibs)"
  have mx0: "0 \<le> mx" using plft(3) maxRgt_of_nonneg by (simp add: mx_def)
  define x1 where "x1 = x\<lparr>lvl := lvl p + 1, lft := Some (mx + 1), rgt := Some (mx + 2)\<rparr>"
  define f where "f = shift_node cfg x mx 2"
  define st1 where "st1 = map f st"
  have all: "list_all (\<lambda>nd. truthy (lft nd) \<and> truthy (rgt nd)) ?sibs"
    using sibs by (simp add: list_all_iff)
  have save: "pre_save cfg st x = Inr (st1, x1)"
    using pre_save_built[OF par plft(1,2) pr all, of cfg]
    by (simp add: shift_eq_map mx_def x1_def st1_def f_def)
  have x1b: "has_bounds x1" by (simp add: has_bounds_def x1_def)
  \<comment> \<open>the removal hook sees the same parent, moved by the insertion\<close>
  obtain pid where pid: "parentReference x = Some pid" "findOne st (\<lambda>m. nid m = pid) = Some p"
    using par by (auto simp: parent_def split: option.splits)
  have par1: "parent (st1 @ [x1]) x1 = Some (f p)"
    using findOne_map_append[OF pid(2), of f "[x1]"] pid(1)
    by (simp add: parent_def x1_def st1_def f_def)
  have tl: "truthy (lft (f p))" and tr: "truthy (rgt (f p))"
    using move_truthy[OF pl mx0] move_truthy[OF pr mx0] pl pr
    by (simp_all add: f_def shift_node_bounds)
  then obtain plft1 where plft1: "lft (f p) = Some plft1" "plft1 \<noteq> 0"
    by (auto simp: truthy_def split: option.splits)
  have lp: "plft1 = plft" if "?sibs = []"
    using that plft1(1) plft(1)
    by (auto simp: f_def shift_node_bounds move_def mx_def split: if_splits)
  \<comment> \<open>and the same siblings, whose \<open>rgt\<close> the insertion has left alone\<close>
  have sib1: "siblings (st1 @ [x1]) (\<lambda>m. True) x1 = map f ?sibs"
    unfolding st1_def
    by (rule siblings_after_insert) (simp_all add: x1_def f_def)
  have keep: "rgt (f s) = rgt s" if "s \<in> set ?sibs" "?sibs \<noteq> []" for s
  proof (cases "rgt s")
    case None
    then show ?thesis by (simp add: f_def shift_node_bounds move_def)
  next
    case (Some r)
    with that have "r \<le> mx" using maxRgt_of_upper[of s ?sibs r] by (simp add: mx_def)
    with Some show ?thesis by (simp add: f_def shift_node_bounds move_def)
  qed
  have all1: "list_all (\<lambda>nd. truthy (lft nd) \<and> truthy (rgt nd)) (map f ?sibs)"
    using sibs move_truthy[OF _ mx0]
    by (auto simp: list_all_iff f_def shift_node_bounds)
  have mx1: "(if map f ?sibs = [] then plft1 else maxRgt_of (map f ?sibs)) = mx"
  proof (cases "?sibs = []")
    case True
    then show ?thesis using lp by (simp add: mx_def)
  next
    case False
    have "map rgt (map f ?sibs) = map rgt ?sibs"
      using keep False by simp
    then have "maxRgt_of (map f ?sibs) = maxRgt_of ?sibs" by (rule maxRgt_of_cong)
    with False show ?thesis by (simp add: mx_def)
  qed
  have remove: "pre_remove cfg (st1 @ [x1]) x1 =
                  Inr (map (shift_node cfg x1 mx (- 2)) (st1 @ [x1]), x1)"
  proof -
    have a: "list_all (\<lambda>nd. truthy (lft nd) \<and> truthy (rgt nd))
               (siblings (st1 @ [x1]) (\<lambda>m. True) x1)"
      using all1 by (simp only: sib1)
    have m: "(if siblings (st1 @ [x1]) (\<lambda>m. True) x1 = [] then plft1
              else maxRgt_of (siblings (st1 @ [x1]) (\<lambda>m. True) x1)) = mx"
      using mx1 by (simp only: sib1)
    show ?thesis
      using pre_remove_built[OF par1 plft1 tr a, of cfg] by (simp only: m shift_eq_map)
  qed
  \<comment> \<open>the two shifts cancel on every document of the collection\<close>
  have same: "shift_node cfg x1 mx (- 2) = shift_node cfg x mx (- 2)"
    by (rule ext, rule shift_node_self_cong) (simp add: x1_def)
  have undone: "map (shift_node cfg x1 mx (- 2)) st1 = st"
    by (simp add: same st1_def f_def shift_node_inverse comp_def)
  have nx: "nid x1 = nid x" by (simp add: x1_def)
  have others: "filter (\<lambda>m. nid m \<noteq> nid x1) st = st"
    using new unfolding nx by (force simp: filter_id_conv image_iff)
  have restored:
    "filter (\<lambda>m. nid m \<noteq> nid x1) (map (shift_node cfg x1 mx (- 2)) (st1 @ [x1])) = st"
    using others by (simp add: undone)
  from save x1b remove restored show ?thesis by blast
qed

theorem removal_inverse_witness:
  "pre_save no_grouping office_built joe = Inr (office_joe, joe_saved) \<and>
   (\<exists>st3. pre_remove no_grouping (office_joe @ [joe_saved]) joe_saved = Inr (st3, joe_saved) \<and>
          filter (\<lambda>m. nid m \<noteq> nid joe_saved) st3 = office_built)"
proof -
  have new: "nid joe \<notin> nid ` set office_built"
    by (simp add: joe_def office_built_def user_def)
  have p: "parent office_built joe = Some (user 6 ''creed'' (Some 2) (Some 5) (Some 6))"
    by (simp add: parent_def joe_def office_built_def user_def findOne_def)
  have t: "truthy (lft (user 6 ''creed'' (Some 2) (Some 5) (Some 6)))"
          "truthy (rgt (user 6 ''creed'' (Some 2) (Some 5) (Some 6)))"
          "gte (lft (user 6 ''creed'' (Some 2) (Some 5) (Some 6))) (Some 0)"
    by (simp_all add: truthy_def gte_def user_def)
  have s: "\<forall>s\<in>set (siblings office_built (\<lambda>m. True) joe). truthy (lft s) \<and> truthy (rgt s)"
    by (simp add: siblings_def find_docs_def joe_def office_built_def user_def)
  have save: "pre_save no_grouping office_built joe = Inr (office_joe, joe_saved)"
    by (simp add: pre_save_def parent_def findOne_def siblings_def find_docs_def shift_def
        updateMany_def updateConditions_def inc_lft_def inc_rgt_def gt_def truthy_def
        truthy_str_def no_grouping_def joe_def joe_saved_def office_built_def office_joe_def
        user_def)
  from removal_inverse[OF new p t s, of no_grouping] save show ?thesis by auto
qed

subsection \<open>The interval relation\<close>

text \<open>
  C5. Under the nested-set invariant, for two documents \<open>a\<close> and \<open>b\<close> of one
  partition that both have boundaries, exactly one of \<open>a = b\<close>,
  \<open>isDescendantOf a b\<close>, \<open>isAncestorOf a b\<close> and disjoint intervals holds, and the
  intervals never overlap in part.
\<close>

theorem relation_trichotomy:
  assumes "nested_set_invariant cfg st" and "a \<in> set st" and "b \<in> set st"
    and "in_partition cfg a b" and "has_bounds a" and "has_bounds b"
  shows "exactly_one [a = b, isDescendantOf a b, isAncestorOf a b, disjoint_intervals a b] \<and>
         \<not> partial_overlap a b"
proof -
  have sym: "in_partition cfg b a"
    using assms(4) by (auto simp: in_partition_def split: if_splits option.splits)
  have aa: "lt (lft a) (rgt a)"
    using assms unfolding nested_set_invariant_def by blast
  have bb: "lt (lft b) (rgt b)"
    using assms sym unfolding nested_set_invariant_def by blast
  have ab: "a = b \<or> strictly_inside a b \<or> strictly_inside b a \<or> disjoint_intervals a b"
    using assms unfolding nested_set_invariant_def by blast
  obtain la ra lb rb where v: "lft a = Some la" "rgt a = Some ra" "lft b = Some lb" "rgt b = Some rb"
    using assms(5,6) by (auto simp: has_bounds_def)
  from aa bb v have o: "la < ra" "lb < rb" by (simp_all add: lt_def)
  from ab show ?thesis
    using v o
    by (auto simp: exactly_one_def isDescendantOf_def isAncestorOf_def disjoint_intervals_def
        strictly_inside_def partial_overlap_def lt_def lte_def)
qed

theorem relation_trichotomy_witness:
  "exactly_one [user 2 ''meredith'' (Some 1) (Some 2) (Some 3) = user 1 ''michael'' None (Some 1) (Some 4),
      isDescendantOf (user 2 ''meredith'' (Some 1) (Some 2) (Some 3)) (user 1 ''michael'' None (Some 1) (Some 4)),
      isAncestorOf (user 2 ''meredith'' (Some 1) (Some 2) (Some 3)) (user 1 ''michael'' None (Some 1) (Some 4)),
      disjoint_intervals (user 2 ''meredith'' (Some 1) (Some 2) (Some 3)) (user 1 ''michael'' None (Some 1) (Some 4))] \<and>
   isDescendantOf (user 2 ''meredith'' (Some 1) (Some 2) (Some 3)) (user 1 ''michael'' None (Some 1) (Some 4))"
proof -
  have inv: "nested_set_invariant \<lparr>groupingKey = None\<rparr> pair_store"
    by (simp add: nested_set_invariant_def pair_store_def user_def has_bounds_def lt_def
        strictly_inside_def disjoint_intervals_def in_partition_def truthy_str_def)
  have m: "user 2 ''meredith'' (Some 1) (Some 2) (Some 3) \<in> set pair_store"
          "user 1 ''michael'' None (Some 1) (Some 4) \<in> set pair_store"
    by (simp_all add: pair_store_def)
  have p: "in_partition \<lparr>groupingKey = None\<rparr> (user 2 ''meredith'' (Some 1) (Some 2) (Some 3))
             (user 1 ''michael'' None (Some 1) (Some 4))"
    by (simp add: in_partition_def truthy_str_def)
  have b: "has_bounds (user 2 ''meredith'' (Some 1) (Some 2) (Some 3))"
          "has_bounds (user 1 ''michael'' None (Some 1) (Some 4))"
    by (simp_all add: has_bounds_def user_def)
  from relation_trichotomy[OF inv m p b] show ?thesis
    by (simp add: isDescendantOf_def user_def lt_def)
qed

subsection \<open>The grouping key\<close>

text \<open>
  C7 as stated fails: with the grouping key \<open>tree\<close> configured, the ancestors of
  the elm's leaf include the root of the oak, a document of another partition.
\<close>

theorem queries_cross_partitions_counterexample:
  "truthy_str (groupingKey by_tree) \<and>
   ancestors forest (\<lambda>m. True) (plant 5 ''elm'' (Some 4) 2 3) =
     [plant 1 ''oak'' None 1 6, plant 4 ''elm'' None 1 4] \<and>
   \<not> in_partition by_tree (plant 5 ''elm'' (Some 4) 2 3) (plant 1 ''oak'' None 1 6)"
  by (simp add: by_tree_def truthy_str_def ancestors_def find_docs_def forest_def plant_def
      lt_def gt_def in_partition_def field_def)

text \<open>
  C7, amended. With a grouping key configured, only the two range updates of the hooks
  are scoped to the documents that share the node's value of the key. The filters of
  the relationship queries and the lookup of the children in \<open>rebuildTree\<close> carry
  no condition on the grouping key: they select by boundaries, parent id and id alone,
  over the whole collection.
\<close>

theorem grouping_key_scope:
  "shift cfg st self maxRgt d =
     map (\<lambda>m. if in_partition cfg self m
              then m\<lparr>lft := move maxRgt d (lft m), rgt := move maxRgt d (rgt m)\<rparr>
              else m) st \<and>
   ancestors st f n = filter (\<lambda>m. f m \<and> lt (lft m) (lft n) \<and> gt (rgt m) (rgt n)) st \<and>
   selfAndAncestors st f n = filter (\<lambda>m. f m \<and> lte (lft m) (lft n) \<and> gte (rgt m) (rgt n)) st \<and>
   descendants st f n = filter (\<lambda>m. f m \<and> gt (lft m) (lft n) \<and> lt (rgt m) (rgt n)) st \<and>
   selfAndDescendants st f n = filter (\<lambda>m. f m \<and> gte (lft m) (lft n) \<and> lte (rgt m) (rgt n)) st \<and>
   children st f n = filter (\<lambda>m. f m \<and> parentReference m = Some (nid n)) st \<and>
   selfAndChildren st f n =
     filter (\<lambda>m. f m \<and> (parentReference m = Some (nid n) \<or> nid m = nid n)) st \<and>
   siblings st f n =
     filter (\<lambda>m. f m \<and> parentReference m = parentReference n \<and> nid m \<noteq> nid n) st \<and>
   selfAndSiblings st f n = filter (\<lambda>m. f m \<and> parentReference m = parentReference n) st \<and>
   rebuildTree (Suc k) st root left =
     (if filter (\<lambda>m. parentReference m = Some (nid root)) st = []
      then Some (Inr (updateOne st (\<lambda>m. nid m = nid root) (set_bounds left (left + 1)), left + 1))
      else forEachSeries k st root left (left + 1)
             (filter (\<lambda>m. parentReference m = Some (nid root)) st))"
  by (simp add: shift_eq_map shift_node_def ancestors_def selfAndAncestors_def descendants_def
      selfAndDescendants_def children_def selfAndChildren_def siblings_def selfAndSiblings_def
      find_docs_def truthy_array_def Let_def fun_eq_iff)

end
